theory Spec2Isabelle
  imports Complex_Main "HOL-Library.Word" "HOL-Library.Multiset"
begin

section \<open>Outcomes of a call\<close>

text \<open>
  A function of the source that can end without returning has a result of type
  \<open>error + 'a\<close>, and every way it can end so is a value of \<open>error\<close>.
  \<^item> \<open>AssertionFailed\<close>: a C \<open>assert\<close> whose condition is false.
  \<^item> \<open>OutOfBounds\<close>: \<open>operator[]\<close> of a \<open>std::vector\<close> with an index that is not below
    its size. C++ leaves that undefined; the model stops there and says so, it promises
    neither a crash nor a result.
  \<^item> the remaining constructors: one per call of \<open>fatal_error\<close>, named after its message.
\<close>

text \<open>
  Modelled from the spec: \<open>fatal_error\<close> is declared outside \<open>src/\<close>; it ends the call
  with a diagnostic and does not return to its caller. Each of its calls is an \<open>Inl\<close>
  result: \<open>SampleOutOfRange\<close> (line 48 of kmergraphwithcoverage.cpp), \<open>NoReadsMapped\<close>
  (lines 134 and 146), \<open>UnsetBinomialP\<close> (line 157), \<open>InexistentNode\<close> (line 163),
  \<open>BinomialParametersNotOk\<close> (line 200), \<open>InvalidModel\<close> (line 209), \<open>InfiniteLoop\<close>
  (line 518), \<open>NoPath\<close> (line 525), \<open>InvalidERate\<close> (line 35), \<open>GFABadPath\<close> (line 692),
  \<open>InconsistentId\<close> (lines 706 and 759).
\<close>

datatype error =
    AssertionFailed
  | OutOfBounds
  | SampleOutOfRange
  | NoReadsMapped
  | UnsetBinomialP
  | InexistentNode
  | BinomialParametersNotOk
  | InvalidModel
  | InfiniteLoop
  | NoPath
  | InvalidERate
  | GFABadPath
  | InconsistentId

section \<open>KmerGraph (kmergraph.cpp)\<close>

text \<open>
  A \<open>Path\<close> is a sequence of half-open intervals. A node is referred to by its position in
  the vector \<open>nodes\<close> of its graph: the source holds pointers to the nodes of that vector,
  two pointers are equal exactly when the positions are, and following a pointer is
  reading \<open>nodes\<close> at the position. \<open>inNodes\<close> and \<open>outNodes\<close> (\<open>in_nodes\<close> and
  \<open>out_nodes\<close> in kmergraphwithcoverage.cpp) keep the order of insertion, as the vectors of
  the source do. \<open>sorted_nodes\<close> is the ordered set of the source in the order it is
  iterated. The field \<open>id\<close> of a node is \<open>node_id\<close> and the field \<open>k\<close> of a graph is
  \<open>kmer_k\<close>; \<open>covg\<close> and \<open>num_AT\<close> of a node, which no function below reads, are left
  out.
\<close>

type_synonym interval = "nat \<times> nat"
type_synonym path = "interval list"

record kmernode =
  node_id :: nat
  path :: path
  inNodes :: "nat list"
  outNodes :: "nat list"

record kmergraph =
  nodes :: "kmernode list"
  sorted_nodes :: "nat list"
  next_id :: nat
  kmer_k :: nat

text \<open>
  \<open>KmerGraph::add_edge(from, to)\<close>, kmergraph.cpp lines 52 to 64. The assertion compares
  with \<open><=\<close>; an index equal to the size passes it and reaches \<open>nodes[from]\<close> or \<open>nodes[to]\<close>.
\<close>

definition add_edge :: "kmergraph \<Rightarrow> nat \<Rightarrow> nat \<Rightarrow> error + kmergraph" where
  "add_edge g from_id to_id =
    (let ns = nodes g in
     if \<not> (from_id \<le> length ns \<and> to_id \<le> length ns) then Inl AssertionFailed
     else if length ns \<le> from_id \<or> length ns \<le> to_id then Inl OutOfBounds
     else
       let nf = ns ! from_id;
           ns1 = (if to_id \<in> set (outNodes nf) then ns
                  else ns[from_id := nf\<lparr>outNodes := outNodes nf @ [to_id]\<rparr>]);
           nt = ns1 ! to_id;
           ns2 = (if from_id \<in> set (inNodes nt) then ns1
                  else ns1[to_id := nt\<lparr>inNodes := inNodes nt @ [from_id]\<rparr>])
       in Inr (g\<lparr>nodes := ns2\<rparr>))"


text \<open>
  \<open>KmerGraph::check(num_minikmers)\<close>, kmergraph.cpp lines 122 to 134: the node count, then
  for every node that only node 0 has no in-edge and only the last node no out-edge.
\<close>

definition check :: "kmergraph \<Rightarrow> nat \<Rightarrow> error + unit" where
  "check g num_minikmers =
    (if \<not> (num_minikmers = 0 \<or> length (nodes g) = num_minikmers + 2) then Inl AssertionFailed
     else if list_all (\<lambda>c. (0 < length (inNodes c) \<or> node_id c = 0) \<and>
                          (0 < length (outNodes c) \<or> int (node_id c) = int (length (nodes g)) - 1))
               (nodes g)
          then Inr () else Inl AssertionFailed)"

text \<open>
  \<open>KmerGraph::get_node_order\<close>, kmergraph.cpp lines 136 to 168. \<open>gno_loop\<close> is the first
  loop: \<open>i\<close> is the position of the node being placed, \<open>starts\<close> and \<open>ends\<close> are
  \<open>num_bubble_starts\<close> and \<open>num_bubble_ends\<close> (C \<open>int\<close>), \<open>lv\<close> is \<open>nodes_by_level\<close>.
  The index \<open>num_bubble_starts - num_bubble_ends\<close> is asserted non-negative, and nothing
  in the source bounds it from above.
\<close>

fun gno_loop :: "kmernode list \<Rightarrow> nat \<Rightarrow> int \<Rightarrow> int \<Rightarrow> nat list list \<Rightarrow> error + nat list list" where
  "gno_loop [] i starts ends lv = Inr lv"
| "gno_loop (n # ns) i starts ends lv =
     (let ends' = (if 1 < length (inNodes n) then ends + 1 else ends) in
      if \<not> (0 \<le> starts - ends') then Inl AssertionFailed
      else if \<not> (nat (starts - ends') < length lv) then Inl OutOfBounds
      else gno_loop ns (Suc i)
             (if 1 < length (outNodes n) then starts + 1 else starts) ends'
             (lv[nat (starts - ends') := lv ! nat (starts - ends') @ [i]]))"

definition get_node_order :: "kmergraph \<Rightarrow> error + nat list" where
  "get_node_order g =
    (case gno_loop (nodes g) 0 0 0 (replicate 10 []) of
       Inl e \<Rightarrow> Inl e
     | Inr lv \<Rightarrow> Inr (concat (rev lv)))"

text \<open>
  The bubble level of the node at position \<open>i\<close>, as a count over the nodes in insertion
  order: the nodes before \<open>i\<close> with more than one out-edge, minus the nodes up to and
  including \<open>i\<close> with more than one in-edge.
\<close>

definition bubble_level :: "kmernode list \<Rightarrow> nat \<Rightarrow> int" where
  "bubble_level ns i =
     int (length (filter (\<lambda>n. 1 < length (outNodes n)) (take i ns)))
   - int (length (filter (\<lambda>n. 1 < length (inNodes n)) (take (Suc i) ns)))"




text \<open>
  The running level seen from inside the loop, with the counters \<open>s\<close> and \<open>e\<close> the loop holds
  when it reaches the list \<open>ns\<close>; \<open>bubble_level\<close> is the case \<open>s = e = 0\<close>.
\<close>

definition run_level :: "int \<Rightarrow> int \<Rightarrow> kmernode list \<Rightarrow> nat \<Rightarrow> int" where
  "run_level s e ns j =
     (s + int (length (filter (\<lambda>n. 1 < length (outNodes n)) (take j ns))))
   - (e + int (length (filter (\<lambda>n. 1 < length (inNodes n)) (take (Suc j) ns))))"

text \<open>The test graph with its eight edges in place.\<close>

definition built_test_graph :: kmergraph where
  "built_test_graph =
    \<lparr>nodes =
      [\<lparr>node_id = 0, path = [(0,0)], inNodes = [], outNodes = [1, 3, 5]\<rparr>,
       \<lparr>node_id = 1, path = [(0,1),(4,5),(8,9)], inNodes = [0], outNodes = [2]\<rparr>,
       \<lparr>node_id = 2, path = [(4,5),(8,9),(16,16),(23,24)], inNodes = [1], outNodes = [6]\<rparr>,
       \<lparr>node_id = 3, path = [(0,1),(4,5),(12,13)], inNodes = [0], outNodes = [4]\<rparr>,
       \<lparr>node_id = 4, path = [(4,5),(12,13),(16,16),(23,24)], inNodes = [3], outNodes = [6]\<rparr>,
       \<lparr>node_id = 5, path = [(0,1),(19,20),(23,24)], inNodes = [0], outNodes = [6]\<rparr>,
       \<lparr>node_id = 6, path = [(24,24)], inNodes = [2, 4, 5], outNodes = []\<rparr>],
     sorted_nodes = [], next_id = 7, kmer_k = 0\<rparr>"

text \<open>Two nodes and no edge: the graph \<open>kg2\<close> of the test \<open>addEdge\<close> before its first edge.\<close>

definition two_node_graph :: kmergraph where
  "two_node_graph =
    \<lparr>nodes = [\<lparr>node_id = 0, path = [(0,3)], inNodes = [], outNodes = []\<rparr>,
              \<lparr>node_id = 1, path = [(0,4)], inNodes = [], outNodes = []\<rparr>],
     sorted_nodes = [], next_id = 2, kmer_k = 0\<rparr>"

text \<open>Two nodes that both lead into a third: the third is placed at level \<open>-1\<close>.\<close>

definition merge_graph :: kmergraph where
  "merge_graph =
    \<lparr>nodes = [\<lparr>node_id = 0, path = [(0,3)], inNodes = [], outNodes = [2]\<rparr>,
              \<lparr>node_id = 1, path = [(0,4)], inNodes = [], outNodes = [2]\<rparr>,
              \<lparr>node_id = 2, path = [(4,7)], inNodes = [0, 1], outNodes = []\<rparr>],
     sorted_nodes = [], next_id = 3, kmer_k = 0\<rparr>"

section \<open>Floating point values\<close>

text \<open>
  The source computes in C \<open>float\<close>. The model keeps what decides the control flow of the
  code: the two infinities, the value that is not a number (every comparison with it is
  false) and division by zero. A finite value is a real number: rounding and overflow of
  finite results are not modelled, and neither is the sign of zero (every zero divisor in
  this code comes from an unsigned integer, so it is \<open>+0\<close>).
\<close>

datatype fl = NaN | NInf | Fin real | PInf

fun fl_neg :: "fl \<Rightarrow> fl" where
  "fl_neg NaN = NaN"
| "fl_neg NInf = PInf"
| "fl_neg PInf = NInf"
| "fl_neg (Fin a) = Fin (- a)"

fun fl_add :: "fl \<Rightarrow> fl \<Rightarrow> fl" where
  "fl_add (Fin a) (Fin b) = Fin (a + b)"
| "fl_add NaN _ = NaN"
| "fl_add _ NaN = NaN"
| "fl_add PInf NInf = NaN"
| "fl_add NInf PInf = NaN"
| "fl_add PInf _ = PInf"
| "fl_add _ PInf = PInf"
| "fl_add NInf _ = NInf"
| "fl_add _ NInf = NInf"

definition fl_sub :: "fl \<Rightarrow> fl \<Rightarrow> fl" where
  "fl_sub a b = fl_add a (fl_neg b)"

fun fl_mul :: "fl \<Rightarrow> fl \<Rightarrow> fl" where
  "fl_mul (Fin a) (Fin b) = Fin (a * b)"
| "fl_mul NaN _ = NaN"
| "fl_mul _ NaN = NaN"
| "fl_mul (Fin a) i = (if a = 0 then NaN else if 0 < a then i else fl_neg i)"
| "fl_mul i (Fin a) = (if a = 0 then NaN else if 0 < a then i else fl_neg i)"
| "fl_mul PInf PInf = PInf"
| "fl_mul NInf NInf = PInf"
| "fl_mul PInf NInf = NInf"
| "fl_mul NInf PInf = NInf"

fun fl_div :: "fl \<Rightarrow> fl \<Rightarrow> fl" where
  "fl_div (Fin a) (Fin b) =
     (if b = 0 then (if a = 0 then NaN else if 0 < a then PInf else NInf) else Fin (a / b))"
| "fl_div NaN _ = NaN"
| "fl_div _ NaN = NaN"
| "fl_div (Fin a) _ = Fin 0"
| "fl_div i (Fin b) = (if 0 \<le> b then i else fl_neg i)"
| "fl_div _ _ = NaN"

fun fl_log :: "fl \<Rightarrow> fl" where
  "fl_log (Fin a) = (if a = 0 then NInf else if 0 < a then Fin (ln a) else NaN)"
| "fl_log PInf = PInf"
| "fl_log _ = NaN"


fun fl_lt :: "fl \<Rightarrow> fl \<Rightarrow> bool" where
  "fl_lt (Fin a) (Fin b) = (a < b)"
| "fl_lt NaN _ = False"
| "fl_lt _ NaN = False"
| "fl_lt _ NInf = False"
| "fl_lt PInf _ = False"
| "fl_lt _ _ = True"

fun fl_le :: "fl \<Rightarrow> fl \<Rightarrow> bool" where
  "fl_le (Fin a) (Fin b) = (a \<le> b)"
| "fl_le NaN _ = False"
| "fl_le _ NaN = False"
| "fl_le NInf _ = True"
| "fl_le _ PInf = True"
| "fl_le _ _ = False"

definition fl_gt :: "fl \<Rightarrow> fl \<Rightarrow> bool" where
  "fl_gt a b = fl_lt b a"

definition fl_of_nat :: "nat \<Rightarrow> fl" where
  "fl_of_nat n = Fin (real n)"

text \<open>\<open>std::numeric_limits<float>::lowest()\<close>, which is \<open>-(2 - 2^-23) * 2^127\<close>.\<close>

definition lowest_float :: fl where
  "lowest_float = Fin (- 340282346638528859811704183484516925440)"

section \<open>KmerGraphWithCoverage (kmergraphwithcoverage.cpp)\<close>

text \<open>
  \<open>node_index_to_sample_coverage[node][sample]\<close> is the pair of the forward and the reverse
  counter, both \<open>uint16_t\<close>. \<open>thresh\<close> is kept as a floating point value: the source only
  compares it with one and stores it in one.
\<close>

datatype strand = Forward | Reverse

record kmergraphwithcoverage =
  kmer_prg :: kmergraph
  node_index_to_sample_coverage :: "(16 word \<times> 16 word) list list"
  num_reads :: nat
  binomial_parameter_p :: fl
  negative_binomial_parameter_p :: fl
  negative_binomial_parameter_r :: fl
  thresh :: fl

text \<open>
  What the source calls and \<open>src/\<close> does not hold, taken as parameters:
  \<open>lognchoosek2\<close> (utils), the probability mass function of boost's negative binomial
  distribution, and \<open>KmerGraph::check()\<close> in the form without argument that
  \<open>find_max_path\<close> calls.
\<close>

record externals =
  lognchoosek2 :: "nat \<Rightarrow> nat \<Rightarrow> nat \<Rightarrow> fl"
  negative_binomial_pdf :: "fl \<Rightarrow> fl \<Rightarrow> nat \<Rightarrow> fl"
  kmer_prg_check :: "kmergraph \<Rightarrow> error + unit"

text \<open>
  \<open>increment_covg\<close>, lines 42 to 65. The vector of the node is indexed before the sample
  is tested; the counter is raised only below \<open>UINT16_MAX\<close>.
\<close>

definition increment_covg ::
  "kmergraphwithcoverage \<Rightarrow> nat \<Rightarrow> strand \<Rightarrow> nat \<Rightarrow> error + kmergraphwithcoverage" where
  "increment_covg g n_id str sample_id =
    (let cov = node_index_to_sample_coverage g in
     if length cov \<le> n_id then Inl OutOfBounds
     else if \<not> (sample_id < length (cov ! n_id)) then Inl SampleOutOfRange
     else
       let row = cov ! n_id;
           f = fst (row ! sample_id);
           r = snd (row ! sample_id);
           cell = (case str of
                     Forward \<Rightarrow> ((if f < 65535 then f + 1 else f), r)
                   | Reverse \<Rightarrow> (f, (if r < 65535 then r + 1 else r)))
       in Inr (g\<lparr>node_index_to_sample_coverage := cov[n_id := row[sample_id := cell]]\<rparr>))"

text \<open>\<open>get_covg\<close>, lines 67 to 81; the result is a \<open>uint32_t\<close> holding a 16-bit value.\<close>

definition get_covg :: "kmergraphwithcoverage \<Rightarrow> nat \<Rightarrow> strand \<Rightarrow> nat \<Rightarrow> error + nat" where
  "get_covg g n_id str sample_id =
    (let cov = node_index_to_sample_coverage g in
     if length cov \<le> n_id then Inl OutOfBounds
     else if length (cov ! n_id) \<le> sample_id then Inr 0
     else (case str of
             Forward \<Rightarrow> Inr (unat (fst (cov ! n_id ! sample_id)))
           | Reverse \<Rightarrow> Inr (unat (snd (cov ! n_id ! sample_id)))))"

text \<open>
  Modelled from the spec: \<open>get_forward_covg\<close> and \<open>get_reverse_covg\<close> are declared in
  kmergraphwithcoverage.h, outside \<open>src/\<close>; they are \<open>get_covg\<close> at the strand they name.
\<close>

definition get_forward_covg :: "kmergraphwithcoverage \<Rightarrow> nat \<Rightarrow> nat \<Rightarrow> error + nat" where
  "get_forward_covg g n_id sample_id = get_covg g n_id Forward sample_id"

definition get_reverse_covg :: "kmergraphwithcoverage \<Rightarrow> nat \<Rightarrow> nat \<Rightarrow> error + nat" where
  "get_reverse_covg g n_id sample_id = get_covg g n_id Reverse sample_id"

text \<open>
  The sum \<open>get_forward_covg + get_reverse_covg\<close> that four functions of the source compute
  first; it is at most \<open>2 * 65535\<close>, far from the range of \<open>uint32_t\<close>.
\<close>

definition sum_covg :: "kmergraphwithcoverage \<Rightarrow> nat \<Rightarrow> nat \<Rightarrow> error + nat" where
  "sum_covg g n_id sample_id =
    (case get_forward_covg g n_id sample_id of
       Inl e \<Rightarrow> Inl e
     | Inr f \<Rightarrow> (case get_reverse_covg g n_id sample_id of
                   Inl e \<Rightarrow> Inl e
                 | Inr r \<Rightarrow> Inr (f + r)))"

text \<open>
  \<open>coverage_is_zeroes\<close>, lines 214 to 230: the loop runs over all of \<open>kmer_prg->nodes\<close> and
  leaves at the first node with a positive sum.
\<close>

fun coverage_is_zeroes_loop :: "kmergraphwithcoverage \<Rightarrow> nat \<Rightarrow> kmernode list \<Rightarrow> error + bool" where
  "coverage_is_zeroes_loop g sample_id [] = Inr True"
| "coverage_is_zeroes_loop g sample_id (n # ns) =
     (case sum_covg g (node_id n) sample_id of
        Inl e \<Rightarrow> Inl e
      | Inr covg \<Rightarrow> if 0 < covg then Inr False else coverage_is_zeroes_loop g sample_id ns)"

definition coverage_is_zeroes :: "kmergraphwithcoverage \<Rightarrow> nat \<Rightarrow> error + bool" where
  "coverage_is_zeroes g sample_id = coverage_is_zeroes_loop g sample_id (nodes (kmer_prg g))"


text \<open>\<open>nbin_prob\<close>, lines 119 to 128; \<open>std::max(a, b)\<close> is \<open>b\<close> when \<open>a < b\<close> and \<open>a\<close> otherwise.\<close>

definition nbin_prob :: "externals \<Rightarrow> kmergraphwithcoverage \<Rightarrow> nat \<Rightarrow> nat \<Rightarrow> error + fl" where
  "nbin_prob ext g n_id sample_id =
    (case sum_covg g n_id sample_id of
       Inl e \<Rightarrow> Inl e
     | Inr c \<Rightarrow>
         let log_prob = fl_log (negative_binomial_pdf ext (negative_binomial_parameter_r g)
                                   (negative_binomial_parameter_p g) c);
             floor_prob = fl_div lowest_float (Fin 1000)
         in Inr (if fl_lt log_prob floor_prob then floor_prob else log_prob))"

text \<open>\<open>lin_prob\<close>, lines 130 to 140.\<close>

definition lin_prob :: "kmergraphwithcoverage \<Rightarrow> nat \<Rightarrow> nat \<Rightarrow> error + fl" where
  "lin_prob g n_id sample_id =
    (if \<not> (num_reads g \<noteq> 0) then Inl NoReadsMapped
     else (case sum_covg g n_id sample_id of
             Inl e \<Rightarrow> Inl e
           | Inr c \<Rightarrow> Inr (fl_log (fl_div (fl_of_nat c) (fl_of_nat (num_reads g))))))"

text \<open>
  \<open>bin_prob(node_id, num, sample_id)\<close>, lines 152 to 188. The first and the last element
  of \<open>sorted_nodes\<close> are read without a check that there is one.
\<close>

definition bin_prob_num :: "externals \<Rightarrow> kmergraphwithcoverage \<Rightarrow> nat \<Rightarrow> nat \<Rightarrow> nat \<Rightarrow> error + fl" where
  "bin_prob_num ext g n_id num sample_id =
    (let p = binomial_parameter_p g; ns = nodes (kmer_prg g); sn = sorted_nodes (kmer_prg g) in
     if \<not> (p \<noteq> Fin 1) then Inl UnsetBinomialP
     else if \<not> (n_id < length ns) then Inl InexistentNode
     else (case get_forward_covg g n_id sample_id of
        Inl e \<Rightarrow> Inl e
      | Inr x_f \<Rightarrow> (case get_reverse_covg g n_id sample_id of
          Inl e \<Rightarrow> Inl e
        | Inr x_r \<Rightarrow>
            let sum_coverages = x_f + x_r in
            if sn = [] then Inl OutOfBounds
            else if n_id = node_id (ns ! hd sn) \<or> n_id = node_id (ns ! last sn) then Inr (Fin 0)
            else if num < sum_coverages then
              Inr (fl_add (lognchoosek2 ext sum_coverages x_f x_r)
                          (fl_mul (fl_of_nat sum_coverages) (fl_log (fl_div p (Fin 2)))))
            else
              Inr (fl_add
                     (fl_add (lognchoosek2 ext num x_f x_r)
                             (fl_mul (fl_of_nat sum_coverages) (fl_log (fl_div p (Fin 2)))))
                     (fl_mul (fl_of_nat (num - sum_coverages)) (fl_log (fl_sub (Fin 1) p)))))))"

text \<open>\<open>bin_prob(node_id, sample_id)\<close>, lines 142 to 150.\<close>

definition bin_prob :: "externals \<Rightarrow> kmergraphwithcoverage \<Rightarrow> nat \<Rightarrow> nat \<Rightarrow> error + fl" where
  "bin_prob ext g n_id sample_id =
    (if \<not> (num_reads g \<noteq> 0) then Inl NoReadsMapped
     else bin_prob_num ext g n_id (num_reads g) sample_id)"

text \<open>\<open>get_prob\<close>, lines 190 to 212.\<close>

definition get_prob :: "externals \<Rightarrow> kmergraphwithcoverage \<Rightarrow> string \<Rightarrow> nat \<Rightarrow> nat \<Rightarrow> error + fl" where
  "get_prob ext g prob_model n_id sample_id =
    (if prob_model = ''nbin'' then nbin_prob ext g n_id sample_id
     else if prob_model = ''bin'' then
       (if \<not> (fl_lt (binomial_parameter_p g) (Fin 1) \<and> 0 < num_reads g)
        then Inl BinomialParametersNotOk
        else bin_prob ext g n_id sample_id)
     else if prob_model = ''lin'' then lin_prob g n_id sample_id
     else Inl InvalidModel)"

text \<open>
  Modelled from the spec: \<open>Path::length\<close> (path.h, outside \<open>src/\<close>) is the number of positions
  the intervals of the path cover; the sentinel source and sink have length 0.
\<close>

definition path_length :: "path \<Rightarrow> nat" where
  "path_length p = sum_list (map (\<lambda>(a, b). b - a) p)"

text \<open>
  \<open>prob_path\<close>, lines 565 to 583. A path is a vector of node pointers, here positions in
  \<open>nodes\<close>. \<open>len\<close> is a \<open>uint32_t\<close>: \<open>len -= 1\<close> wraps around at 0. \<open>kpath[0]\<close> is read
  whether or not the path has an element.
\<close>

fun prob_path_sum ::
  "externals \<Rightarrow> kmergraphwithcoverage \<Rightarrow> nat \<Rightarrow> string \<Rightarrow> fl \<Rightarrow> nat list \<Rightarrow> error + fl" where
  "prob_path_sum ext g sample_id prob_model acc [] = Inr acc"
| "prob_path_sum ext g sample_id prob_model acc (r # rs) =
     (case get_prob ext g prob_model (node_id (nodes (kmer_prg g) ! r)) sample_id of
        Inl e \<Rightarrow> Inl e
      | Inr p \<Rightarrow> prob_path_sum ext g sample_id prob_model (fl_add acc p) rs)"

definition effective_len :: "kmergraph \<Rightarrow> nat list \<Rightarrow> 32 word" where
  "effective_len kg kpath =
    (let len0 = (word_of_nat (length kpath) :: 32 word);
         len1 = (if path_length (path (nodes kg ! hd kpath)) = 0 then len0 - 1 else len0);
         len2 = (if path_length (path (nodes kg ! last kpath)) = 0 then len1 - 1 else len1)
     in if len2 = 0 then 1 else len2)"

definition prob_path ::
  "externals \<Rightarrow> kmergraphwithcoverage \<Rightarrow> nat list \<Rightarrow> nat \<Rightarrow> string \<Rightarrow> error + fl" where
  "prob_path ext g kpath sample_id prob_model =
    (case prob_path_sum ext g sample_id prob_model (Fin 0) kpath of
       Inl e \<Rightarrow> Inl e
     | Inr return_prob_path \<Rightarrow>
         if kpath = [] then Inl OutOfBounds
         else Inr (fl_div return_prob_path (fl_of_nat (unat (effective_len (kmer_prg g) kpath)))))"

text \<open>The counter that \<open>increment_covg\<close> points at, read without a check.\<close>

definition stored_covg :: "kmergraphwithcoverage \<Rightarrow> nat \<Rightarrow> strand \<Rightarrow> nat \<Rightarrow> 16 word" where
  "stored_covg g n_id str sample_id =
    (case str of
       Forward \<Rightarrow> fst (node_index_to_sample_coverage g ! n_id ! sample_id)
     | Reverse \<Rightarrow> snd (node_index_to_sample_coverage g ! n_id ! sample_id))"

text \<open>
  A chain of three nodes with one sample: the source was seen once on the forward strand,
  the reverse counter of the sink is at its maximum.
\<close>

definition covg_example :: kmergraphwithcoverage where
  "covg_example =
    \<lparr>kmer_prg = \<lparr>nodes = [\<lparr>node_id = 0, path = [(0,0)], inNodes = [], outNodes = [1]\<rparr>,
                           \<lparr>node_id = 1, path = [(0,3)], inNodes = [0], outNodes = [2]\<rparr>,
                           \<lparr>node_id = 2, path = [(3,3)], inNodes = [1], outNodes = []\<rparr>],
                  sorted_nodes = [0, 1, 2], next_id = 3, kmer_k = 3\<rparr>,
     node_index_to_sample_coverage = [[(1, 0)], [(0, 0)], [(0, 65535)]],
     num_reads = 2,
     binomial_parameter_p = Fin 1,
     negative_binomial_parameter_p = Fin (3 / 200),
     negative_binomial_parameter_r = Fin 2,
     thresh = Fin (- 25)\<rparr>"

definition zero_covg_example :: kmergraphwithcoverage where
  "zero_covg_example = covg_example\<lparr>node_index_to_sample_coverage := [[(0, 0)], [(0, 0)], [(0, 0)]]\<rparr>"

text \<open>
  Values for the parameters, to run the functions on examples: \<open>lognchoosek2\<close> as the
  logarithm of the multinomial coefficient it is named after, \<open>check()\<close> as the check of
  kmergraph.cpp with no expected node count. None of the examples uses the negative
  binomial model.
\<close>

definition log_multinomial :: "nat \<Rightarrow> nat \<Rightarrow> nat \<Rightarrow> real" where
  "log_multinomial n a b = ln (real (fact n) / (real (fact (n - a - b)) * real (fact a) * real (fact b)))"

definition example_externals :: externals where
  "example_externals =
    \<lparr>lognchoosek2 = (\<lambda>n a b. Fin (log_multinomial n a b)),
     negative_binomial_pdf = (\<lambda>r p c. NaN),
     kmer_prg_check = (\<lambda>kg. check kg 0)\<rparr>"



section \<open>find_max_path (kmergraphwithcoverage.cpp lines 431 to 529)\<close>

text \<open>
  The three vectors of the dynamic program, indexed by node id, and the two running values
  of the scan over the successors of one node. \<open>max_length\<close> is a C \<open>int\<close> that only ever
  holds a value copied from the \<open>uint32_t\<close> vector and is cast back to \<open>uint\<close> where it is
  read, so it is kept as a 32-bit word.
\<close>

record dp_state =
  max_sum_of_log_probs_from_node :: "fl list"
  length_of_maxpath_from_node :: "32 word list"
  prev_node_along_maxpath :: "nat list"
  max_mean :: fl
  max_length :: "32 word"

text \<open>Line 452: \<open>const float tolerance = 0.000001\<close>.\<close>

definition tolerance :: fl where
  "tolerance = Fin (1 / 1000000)"

text \<open>
  Lines 486 to 489: \<open>prev_node\<close> starts at the successor just chosen for the current node
  and is moved \<open>max_num_kmers_to_average\<close> times along \<open>prev_node_along_maxpath\<close>.
\<close>

fun walk_back :: "nat list \<Rightarrow> nat \<Rightarrow> nat \<Rightarrow> error + nat" where
  "walk_back pv 0 p = Inr p"
| "walk_back pv (Suc m) p = (if p < length pv then walk_back pv m (pv ! p) else Inl OutOfBounds)"

text \<open>
  Lines 484 to 498, once the length of the current node exceeds \<open>max_num_kmers_to_average\<close>.
  \<open>prob\<close> stands for \<open>get_prob(prob_model, _, sample_id)\<close>.
\<close>

definition drop_from_window ::
  "(nat \<Rightarrow> error + fl) \<Rightarrow> kmergraph \<Rightarrow> 32 word \<Rightarrow> nat \<Rightarrow> dp_state \<Rightarrow> error + dp_state" where
  "drop_from_window prob kg max_num_kmers_to_average u_id st =
    (let pv = prev_node_along_maxpath st in
     case walk_back pv (unat max_num_kmers_to_average) (pv ! u_id) of
       Inl e \<Rightarrow> Inl e
     | Inr prev_node \<Rightarrow>
         if \<not> prev_node < length (sorted_nodes kg) then Inl OutOfBounds
         else (case prob (node_id (nodes kg ! (sorted_nodes kg ! prev_node))) of
            Inl e \<Rightarrow> Inl e
          | Inr p \<Rightarrow>
              let s_vec = max_sum_of_log_probs_from_node st;
                  l_vec = length_of_maxpath_from_node st;
                  l_vec' = l_vec[u_id := l_vec ! u_id - 1]
              in if l_vec' ! u_id \<noteq> max_num_kmers_to_average then Inl AssertionFailed
                 else Inr (st\<lparr>max_sum_of_log_probs_from_node := s_vec[u_id := fl_sub (s_vec ! u_id) p],
                              length_of_maxpath_from_node := l_vec'\<rparr>)))"

text \<open>
  Lines 459 to 507: one successor \<open>v_id\<close> of the current node \<open>u_id\<close>. The four tests are
  the four \<open>const bool\<close> of the source, in its order.
\<close>

definition consider_outnode ::
  "(nat \<Rightarrow> error + fl) \<Rightarrow> kmergraph \<Rightarrow> fl \<Rightarrow> 32 word \<Rightarrow> nat \<Rightarrow> nat \<Rightarrow> dp_state \<Rightarrow> error + dp_state" where
  "consider_outnode prob kg th max_num_kmers_to_average u_id v_id st =
    (let s_vec = max_sum_of_log_probs_from_node st;
         l_vec = length_of_maxpath_from_node st;
         sink_id = node_id (nodes kg ! last (sorted_nodes kg))
     in
     if \<not> v_id < length s_vec then Inl OutOfBounds
     else
       let mean_v = fl_div (s_vec ! v_id) (fl_of_nat (unat (l_vec ! v_id)));
           is_terminus_and_most_likely =
             (v_id = sink_id \<and> fl_gt th (fl_add (max_mean st) tolerance));
           avg_log_likelihood_is_most_likely = fl_gt mean_v (fl_add (max_mean st) tolerance);
           avg_log_likelihood_is_close_to_most_likely =
             fl_le (fl_sub (max_mean st) mean_v) tolerance;
           is_longer_path = (max_length st < l_vec ! v_id)
       in
       if is_terminus_and_most_likely \<or> avg_log_likelihood_is_most_likely
          \<or> (avg_log_likelihood_is_close_to_most_likely \<and> is_longer_path)
       then
         (case prob u_id of
            Inl e \<Rightarrow> Inl e
          | Inr p \<Rightarrow>
              if \<not> u_id < length s_vec then Inl OutOfBounds
              else
                let st1 = st\<lparr>max_sum_of_log_probs_from_node := s_vec[u_id := fl_add p (s_vec ! v_id)],
                             length_of_maxpath_from_node := l_vec[u_id := 1 + l_vec ! v_id],
                             prev_node_along_maxpath := (prev_node_along_maxpath st)[u_id := v_id]\<rparr>
                in
                (case (if max_num_kmers_to_average < length_of_maxpath_from_node st1 ! u_id
                       then drop_from_window prob kg max_num_kmers_to_average u_id st1
                       else Inr st1) of
                   Inl e \<Rightarrow> Inl e
                 | Inr st2 \<Rightarrow>
                     if v_id \<noteq> sink_id
                     then Inr (st2\<lparr>max_mean :=
                                      fl_div (max_sum_of_log_probs_from_node st2 ! v_id)
                                             (fl_of_nat (unat (length_of_maxpath_from_node st2 ! v_id))),
                                    max_length := length_of_maxpath_from_node st2 ! v_id\<rparr>)
                     else Inr (st2\<lparr>max_mean := th\<rparr>)))
       else Inr st)"

text \<open>The loop over the successors of the current node (line 458).\<close>

fun dp_inner ::
  "(nat \<Rightarrow> error + fl) \<Rightarrow> kmergraph \<Rightarrow> fl \<Rightarrow> 32 word \<Rightarrow> nat \<Rightarrow> nat list \<Rightarrow> dp_state \<Rightarrow> error + dp_state" where
  "dp_inner prob kg th m u_id [] st = Inr st"
| "dp_inner prob kg th m u_id (r # rs) st =
     (case consider_outnode prob kg th m u_id (node_id (nodes kg ! r)) st of
        Inl e \<Rightarrow> Inl e
      | Inr st' \<Rightarrow> dp_inner prob kg th m u_id rs st')"

text \<open>
  The loop over the nodes (line 454), given the nodes it visits in the order it visits
  them: \<open>sorted_nodes[size - 2]\<close> down to \<open>sorted_nodes[0]\<close>.
\<close>

fun dp_outer ::
  "(nat \<Rightarrow> error + fl) \<Rightarrow> kmergraph \<Rightarrow> fl \<Rightarrow> 32 word \<Rightarrow> nat list \<Rightarrow> dp_state \<Rightarrow> error + dp_state" where
  "dp_outer prob kg th m [] st = Inr st"
| "dp_outer prob kg th m (c # cs) st =
     (case dp_inner prob kg th m (node_id (nodes kg ! c)) (outNodes (nodes kg ! c))
             (st\<lparr>max_mean := lowest_float, max_length := 0\<rparr>) of
        Inl e \<Rightarrow> Inl e
      | Inr st' \<Rightarrow> dp_outer prob kg th m cs st')"

text \<open>
  Lines 445 to 509. With no sorted node at all the loop counter starts at
  \<open>uint32_t(size - 1)\<close>, which is not 0, and the first read is out of range.
\<close>

definition max_path_dp ::
  "(nat \<Rightarrow> error + fl) \<Rightarrow> kmergraph \<Rightarrow> fl \<Rightarrow> 32 word \<Rightarrow> error + dp_state" where
  "max_path_dp prob kg th max_num_kmers_to_average =
    (let n = length (sorted_nodes kg) in
     if n = 0 then Inl OutOfBounds
     else dp_outer prob kg th max_num_kmers_to_average (rev (butlast (sorted_nodes kg)))
            \<lparr>max_sum_of_log_probs_from_node = replicate n (Fin 0),
             length_of_maxpath_from_node = replicate n 0,
             prev_node_along_maxpath = replicate n (n - 1),
             max_mean = lowest_float,
             max_length = 0\<rparr>)"

text \<open>
  Lines 512 to 521: the path is read off \<open>prev_node_along_maxpath\<close> until the id of the
  sink (or a larger one) comes up; a path of more than 1000000 nodes is a fatal error.
\<close>

function extract_maxpath :: "kmernode list \<Rightarrow> nat list \<Rightarrow> nat \<Rightarrow> nat \<Rightarrow> nat list \<Rightarrow> error + nat list" where
  "extract_maxpath ns pv n prev_node maxpath =
    (if prev_node < n - 1 then
       (if \<not> prev_node < length ns \<or> \<not> prev_node < length pv then Inl OutOfBounds
        else if 1000000 < length (maxpath @ [prev_node]) then Inl InfiniteLoop
        else extract_maxpath ns pv n (pv ! prev_node) (maxpath @ [prev_node]))
     else Inr maxpath)"
  by pat_completeness auto
termination
  by (relation "measure (\<lambda>(ns, pv, n, prev_node, maxpath). 1000001 - length maxpath)") auto

declare extract_maxpath.simps [simp del]

text \<open>
  \<open>find_max_path\<close>. \<open>maxpath\<close> is the vector the caller passes by reference; the result
  is the score together with that vector as the call leaves it.
\<close>

definition find_max_path ::
  "externals \<Rightarrow> kmergraphwithcoverage \<Rightarrow> nat list \<Rightarrow> string \<Rightarrow> 32 word \<Rightarrow> nat
     \<Rightarrow> error + (fl \<times> nat list)" where
  "find_max_path ext g maxpath prob_model max_num_kmers_to_average sample_id =
    (let kg = kmer_prg g in
     case kmer_prg_check ext kg of
       Inl e \<Rightarrow> Inl e
     | Inr _ \<Rightarrow>
     (case coverage_is_zeroes g sample_id of
        Inl e \<Rightarrow> Inl e
      | Inr True \<Rightarrow> Inr (lowest_float, maxpath)
      | Inr False \<Rightarrow>
      (case max_path_dp (\<lambda>i. get_prob ext g prob_model i sample_id) kg (thresh g)
              max_num_kmers_to_average of
         Inl e \<Rightarrow> Inl e
       | Inr st \<Rightarrow>
           let source_id = node_id (nodes kg ! (sorted_nodes kg ! 0)) in
           if \<not> source_id < length (prev_node_along_maxpath st) then Inl OutOfBounds
           else
           (case extract_maxpath (nodes kg) (prev_node_along_maxpath st) (length (sorted_nodes kg))
                   (prev_node_along_maxpath st ! source_id) maxpath of
              Inl e \<Rightarrow> Inl e
            | Inr maxpath' \<Rightarrow>
                if \<not> 0 < length_of_maxpath_from_node st ! 0 then Inl NoPath
                else (case prob_path ext g maxpath' sample_id prob_model of
                        Inl e \<Rightarrow> Inl e
                      | Inr p \<Rightarrow> Inr (p, maxpath'))))))"

text \<open>
  A chain source, 1, 2, sink. In \<open>chain_covg\<close> node 1 has no coverage and node 2 has been
  seen by all three reads.
\<close>

definition chain_graph :: kmergraph where
  "chain_graph =
    \<lparr>nodes = [\<lparr>node_id = 0, path = [(0,0)], inNodes = [], outNodes = [1]\<rparr>,
              \<lparr>node_id = 1, path = [(0,3)], inNodes = [0], outNodes = [2]\<rparr>,
              \<lparr>node_id = 2, path = [(1,4)], inNodes = [1], outNodes = [3]\<rparr>,
              \<lparr>node_id = 3, path = [(4,4)], inNodes = [2], outNodes = []\<rparr>],
     sorted_nodes = [0, 1, 2, 3], next_id = 4, kmer_k = 3\<rparr>"

definition chain_covg :: kmergraphwithcoverage where
  "chain_covg =
    \<lparr>kmer_prg = chain_graph,
     node_index_to_sample_coverage = [[(0, 0)], [(0, 0)], [(2, 1)], [(0, 0)]],
     num_reads = 3,
     binomial_parameter_p = Fin 1,
     negative_binomial_parameter_p = Fin (3 / 200),
     negative_binomial_parameter_r = Fin 2,
     thresh = Fin (- 25)\<rparr>"

text \<open>Log-probabilities 0, -1, -2, 0 for the four nodes of the chain.\<close>

definition chain_prob :: "nat \<Rightarrow> error + fl" where
  "chain_prob i = Inr (Fin ([0, - 1, - 2, 0] ! i))"

text \<open>The chain with no coverage at all.\<close>

definition chain_zero_covg :: kmergraphwithcoverage where
  "chain_zero_covg = chain_covg\<lparr>node_index_to_sample_coverage := [[(0, 0)], [(0, 0)], [(0, 0)], [(0, 0)]]\<rparr>"

section \<open>KmerGraphWithCoverage::load (lines 641 to 793): the node vector\<close>

text \<open>
  The part of \<open>load\<close> that builds and orders \<open>kmer_prg->nodes\<close> from the \<open>S\<close> lines of
  the file. An \<open>S\<close> line is given as its fields after \<open>split\<close>: the id (\<open>stoi\<close> of the
  second field), the third field as text, and the path read from it. The coverage fields
  and the \<open>L\<close> lines, which do not touch the order of the vector, are left out, and so
  are the fatal errors they can raise.
\<close>

record s_line =
  sl_id :: nat
  sl_path_field :: string
  sl_path :: path


text \<open>Line 701: the node made from a line, with no edge yet.\<close>

definition node_of_line :: "s_line \<Rightarrow> kmernode" where
  "node_of_line l = \<lparr>node_id = sl_id l, path = sl_path l, inNodes = [], outNodes = []\<rparr>"







section \<open>get_node_order: the levels and the order they are emitted in\<close>

lemma run_level_0:
  "run_level s e (n # ns) 0 = s - (if 1 < length (inNodes n) then e + 1 else e)"
  by (simp add: run_level_def)

lemma run_level_Suc:
  "run_level s e (n # ns) (Suc j) =
     run_level (if 1 < length (outNodes n) then s + 1 else s)
               (if 1 < length (inNodes n) then e + 1 else e) ns j"
  by (simp add: run_level_def)

lemma bubble_level_run: "bubble_level ns i = run_level 0 0 ns i"
  by (simp add: run_level_def bubble_level_def)

lemma mset_concat_upd:
  "b < length lv \<Longrightarrow> mset (concat (lv[b := lv ! b @ [x]])) = add_mset x (mset (concat lv))"
proof (induction lv arbitrary: b)
  case Nil
  then show ?case by simp
next
  case (Cons a lv)
  then show ?case by (cases b) auto
qed

text \<open>
  What a run of the first loop that reaches its end has done: every level it met was a
  valid bucket, bucket \<open>l\<close> received exactly the positions at level \<open>l\<close>, in order, and the
  buckets together received every position once.
\<close>

lemma gno_loop_sound:
  "gno_loop ns i s e lv = Inr lv' \<Longrightarrow>
     length lv' = length lv \<and>
     (\<forall>j<length ns. 0 \<le> run_level s e ns j \<and> nat (run_level s e ns j) < length lv) \<and>
     (\<forall>l<length lv. lv' ! l =
        lv ! l @ map (\<lambda>j. i + j) (filter (\<lambda>j. run_level s e ns j = int l) [0..<length ns])) \<and>
     mset (concat lv') = mset (concat lv) + mset [i..<i + length ns]"
proof (induction ns arbitrary: i s e lv)
  case Nil
  then show ?case by simp
next
  case (Cons n ns)
  let ?e = "if 1 < length (inNodes n) then e + 1 else e"
  let ?s = "if 1 < length (outNodes n) then s + 1 else s"
  let ?b = "nat (s - ?e)"
  let ?lv = "lv[?b := lv ! ?b @ [i]]"
  from Cons.prems have ge: "0 \<le> s - ?e" and lt: "?b < length lv"
    and rec: "gno_loop ns (Suc i) ?s ?e ?lv = Inr lv'"
    by (auto simp: Let_def split: if_splits)
  note IH = Cons.IH[OF rec]
  have len: "length lv' = length lv" using IH by simp
  have rng: "\<forall>j<length (n # ns). 0 \<le> run_level s e (n # ns) j
               \<and> nat (run_level s e (n # ns) j) < length lv"
  proof (intro allI impI)
    fix j assume "j < length (n # ns)"
    then show "0 \<le> run_level s e (n # ns) j \<and> nat (run_level s e (n # ns) j) < length lv"
      using IH ge lt by (cases j) (auto simp: run_level_0 run_level_Suc simp del: nat_diff_distrib')
  qed
  have cont: "\<forall>l<length lv. lv' ! l =
      lv ! l @ map (\<lambda>j. i + j) (filter (\<lambda>j. run_level s e (n # ns) j = int l) [0..<length (n # ns)])"
  proof (intro allI impI)
    fix l assume l: "l < length lv"
    have up: "[0..<length (n # ns)] = 0 # map Suc [0..<length ns]"
      by (simp add: upt_conv_Cons map_Suc_upt del: upt_Suc)
    have "lv' ! l = ?lv ! l @ map (\<lambda>j. Suc i + j) (filter (\<lambda>j. run_level ?s ?e ns j = int l) [0..<length ns])"
      using IH l by simp
    moreover have "?lv ! l = lv ! l @ (if run_level s e (n # ns) 0 = int l then [i] else [])"
      using l lt ge by (auto simp: run_level_0 nth_list_update)
    ultimately show "lv' ! l =
        lv ! l @ map (\<lambda>j. i + j) (filter (\<lambda>j. run_level s e (n # ns) j = int l) [0..<length (n # ns)])"
      unfolding up by (simp add: filter_map comp_def run_level_Suc del: upt_Suc)
  qed
  have ms: "mset (concat lv') = mset (concat lv) + mset [i..<i + length (n # ns)]"
  proof -
    have up2: "[i..<i + length (n # ns)] = i # [Suc i..<Suc i + length ns]"
      by (simp add: upt_conv_Cons del: upt_Suc)
    have "mset (concat lv') = mset (concat ?lv) + mset [Suc i..<Suc i + length ns]" using IH by blast
    also have "mset (concat ?lv) = add_mset i (mset (concat lv))" using lt by (rule mset_concat_upd)
    finally show ?thesis unfolding up2 by (simp del: mset_upt upt_Suc)
  qed
  show ?case using len rng cont ms by blast
qed

lemma gno_loop_complete:
  "(\<forall>j<length ns. 0 \<le> run_level s e ns j \<and> nat (run_level s e ns j) < length lv) \<Longrightarrow>
   \<exists>lv'. gno_loop ns i s e lv = Inr lv'"
proof (induction ns arbitrary: i s e lv)
  case Nil
  then show ?case by simp
next
  case (Cons n ns)
  let ?e = "if 1 < length (inNodes n) then e + 1 else e"
  let ?s = "if 1 < length (outNodes n) then s + 1 else s"
  let ?b = "nat (s - ?e)"
  let ?lv = "lv[?b := lv ! ?b @ [i]]"
  from Cons.prems[rule_format, of 0] have ge: "0 \<le> s - ?e" and lt: "?b < length lv"
    by (auto simp: run_level_0)
  have "\<forall>j<length ns. 0 \<le> run_level ?s ?e ns j \<and> nat (run_level ?s ?e ns j) < length ?lv"
  proof (intro allI impI)
    fix j assume "j < length ns"
    then show "0 \<le> run_level ?s ?e ns j \<and> nat (run_level ?s ?e ns j) < length ?lv"
      using Cons.prems[rule_format, of "Suc j"] by (simp add: run_level_Suc)
  qed
  from Cons.IH[OF this, of "Suc i"] obtain lv' where "gno_loop ns (Suc i) ?s ?e ?lv = Inr lv'"
    by blast
  then show ?case using ge lt by (auto simp: Let_def)
qed

lemma get_node_order_char:
  assumes "get_node_order g = Inr order"
  shows "order = concat (map (\<lambda>l. filter (\<lambda>i. bubble_level (nodes g) i = int l) [0..<length (nodes g)])
                           (rev [0..<10]))"
    and "\<forall>i<length (nodes g). 0 \<le> bubble_level (nodes g) i \<and> bubble_level (nodes g) i \<le> 9"
    and "mset order = mset [0..<length (nodes g)]"
proof -
  from assms obtain lv where run: "gno_loop (nodes g) 0 0 0 (replicate 10 []) = Inr lv"
    and ord: "order = concat (rev lv)"
    by (auto simp: get_node_order_def split: sum.splits)
  note S = gno_loop_sound[OF run]
  have len: "length lv = 10" using S by simp
  have each: "\<forall>l<10. lv ! l = filter (\<lambda>i. bubble_level (nodes g) i = int l) [0..<length (nodes g)]"
    using S by (simp add: bubble_level_run)
  have "lv = map (\<lambda>l. filter (\<lambda>i. bubble_level (nodes g) i = int l) [0..<length (nodes g)]) [0..<10]"
    by (rule nth_equalityI) (use len each in auto)
  then show "order = concat (map (\<lambda>l. filter (\<lambda>i. bubble_level (nodes g) i = int l) [0..<length (nodes g)])
                                (rev [0..<10]))"
    using ord by (simp only: rev_map)
  show "\<forall>i<length (nodes g). 0 \<le> bubble_level (nodes g) i \<and> bubble_level (nodes g) i \<le> 9"
    using S by (auto simp: bubble_level_run)
  have "mset order = mset (concat lv)"
    unfolding ord by (simp add: mset_concat rev_map[symmetric] mset_rev del: rev_map)
  then show "mset order = mset [0..<length (nodes g)]"
    using S by (simp del: mset_upt)
qed

lemma get_node_order_returns:
  assumes "\<forall>i<length (nodes g). 0 \<le> bubble_level (nodes g) i \<and> bubble_level (nodes g) i \<le> 9"
  shows "\<exists>order. get_node_order g = Inr order"
proof -
  from assms have "\<forall>j<length (nodes g). 0 \<le> run_level 0 0 (nodes g) j
               \<and> nat (run_level 0 0 (nodes g) j) < length (replicate 10 ([]::nat list))"
    by (auto simp: bubble_level_run)
  from gno_loop_complete[OF this, of 0]
  obtain lv where "gno_loop (nodes g) 0 0 0 (replicate 10 []) = Inr lv"
    by blast
  then show ?thesis by (simp add: get_node_order_def)
qed





text \<open>
  Claim C10. \<open>get_node_order\<close> has ten buckets. If the bubble level of every node, in
  insertion order, lies between 0 and 9, the function returns, and the sequence it returns
  holds every node of the graph exactly once. If some node has a negative level or a level
  of 10 or more, the function does not return a sequence: the assertion fails, or the
  bucket index is out of range.
\<close>

theorem get_node_order_ten_levels:
  "((\<forall>i<length (nodes g). 0 \<le> bubble_level (nodes g) i \<and> bubble_level (nodes g) i \<le> 9) \<longrightarrow>
      (\<exists>order. get_node_order g = Inr order \<and> mset order = mset [0..<length (nodes g)]
                \<and> distinct order))
   \<and> (\<not> (\<forall>i<length (nodes g). 0 \<le> bubble_level (nodes g) i \<and> bubble_level (nodes g) i \<le> 9) \<longrightarrow>
      (\<exists>e. get_node_order g = Inl e))"
proof (intro conjI impI)
  assume "\<forall>i<length (nodes g). 0 \<le> bubble_level (nodes g) i \<and> bubble_level (nodes g) i \<le> 9"
  from get_node_order_returns[OF this] obtain order where a: "get_node_order g = Inr order"
    by blast
  have m: "mset order = mset [0..<length (nodes g)]" by (rule get_node_order_char(3)[OF a])
  then have "distinct order" by (metis distinct_upt mset_eq_imp_distinct_iff)
  then show "\<exists>order. get_node_order g = Inr order \<and> mset order = mset [0..<length (nodes g)]
                \<and> distinct order"
    using a m by blast
next
  assume n: "\<not> (\<forall>i<length (nodes g). 0 \<le> bubble_level (nodes g) i \<and> bubble_level (nodes g) i \<le> 9)"
  show "\<exists>e. get_node_order g = Inl e"
  proof (cases "get_node_order g")
    case (Inl e)
    then show ?thesis by blast
  next
    case (Inr order)
    then show ?thesis using get_node_order_char(2) n by blast
  qed
qed

theorem get_node_order_ten_levels_witness:
  "(\<exists>order. get_node_order built_test_graph = Inr order
        \<and> mset order = mset [0..<length (nodes built_test_graph)] \<and> distinct order)
   \<and> (\<exists>e. get_node_order merge_graph = Inl e)"
proof -
  have a: "\<forall>i<length (nodes built_test_graph).
             0 \<le> bubble_level (nodes built_test_graph) i \<and> bubble_level (nodes built_test_graph) i \<le> 9"
    by (simp add: built_test_graph_def bubble_level_def eval_nat_numeral less_Suc_eq)
  have "bubble_level (nodes merge_graph) 2 < 0"
    by (simp add: merge_graph_def bubble_level_def eval_nat_numeral)
  moreover have "2 < length (nodes merge_graph)" by (simp add: merge_graph_def)
  ultimately have b: "\<not> (\<forall>i<length (nodes merge_graph).
             0 \<le> bubble_level (nodes merge_graph) i \<and> bubble_level (nodes merge_graph) i \<le> 9)"
    by (metis not_less)
  show ?thesis
    using get_node_order_ten_levels[of built_test_graph] get_node_order_ten_levels[of merge_graph] a b
    by blast
qed

section \<open>add_edge\<close>

text \<open>
  When both ids are below the size of \<open>nodes\<close>, \<open>add_edge\<close> returns, \<open>to\<close> is among the
  out-nodes of \<open>from\<close> and \<open>from\<close> among the in-nodes of \<open>to\<close>, and the same call again
  changes nothing.
\<close>

lemma add_edge_reciprocal_idempotent:
  assumes f: "from_id < length (nodes g)" and t: "to_id < length (nodes g)"
  shows "\<exists>g'. add_edge g from_id to_id = Inr g'
           \<and> length (nodes g') = length (nodes g)
           \<and> to_id \<in> set (outNodes (nodes g' ! from_id))
           \<and> from_id \<in> set (inNodes (nodes g' ! to_id))
           \<and> add_edge g' from_id to_id = Inr g'"
proof -
  define ns where "ns = nodes g"
  define nf where "nf = ns ! from_id"
  define ns1 where "ns1 = (if to_id \<in> set (outNodes nf) then ns
                  else ns[from_id := nf\<lparr>outNodes := outNodes nf @ [to_id]\<rparr>])"
  define nt where "nt = ns1 ! to_id"
  define ns2 where "ns2 = (if from_id \<in> set (inNodes nt) then ns1
                  else ns1[to_id := nt\<lparr>inNodes := inNodes nt @ [from_id]\<rparr>])"
  define g' where "g' = g\<lparr>nodes := ns2\<rparr>"
  have run: "add_edge g from_id to_id = Inr g'"
    unfolding g'_def ns2_def nt_def ns1_def nf_def ns_def
    using f t by (simp add: add_edge_def Let_def)
  have l1: "length ns1 = length ns" by (simp add: ns1_def)
  have l2: "length ns2 = length ns" by (simp add: ns2_def l1)
  have f': "from_id < length ns" and t': "to_id < length ns" using f t by (simp_all add: ns_def)
  have o1: "to_id \<in> set (outNodes (ns1 ! from_id))"
    using f' by (auto simp: ns1_def nf_def)
  have o2: "outNodes (ns2 ! from_id) = outNodes (ns1 ! from_id)"
    using f' t' l1 by (auto simp: ns2_def nt_def nth_list_update)
  have i2: "from_id \<in> set (inNodes (ns2 ! to_id))"
    using t' l1 by (auto simp: ns2_def nt_def)
  have out: "to_id \<in> set (outNodes (nodes g' ! from_id))" using o1 o2 by (simp add: g'_def)
  have inn: "from_id \<in> set (inNodes (nodes g' ! to_id))" using i2 by (simp add: g'_def)
  have len: "length (nodes g') = length (nodes g)" by (simp add: g'_def l2 ns_def)
  have again: "add_edge g' from_id to_id = Inr g'"
    using f t out inn len by (simp add: add_edge_def Let_def)
  show ?thesis using run len out inn again by blast
qed

text \<open>
  Claim C8, at the input where the code leaves it. The graph has two nodes, 0 and 1, so 2
  is not the id of a node. \<open>add_edge(0, 2)\<close> passes the assertion, which lets an index equal
  to the size through, and then reads \<open>nodes[2]\<close> past the end of the vector; only from 3
  on does the assertion stop the call.
\<close>

theorem add_edge_index_at_size:
  "add_edge two_node_graph 0 2 = Inl OutOfBounds
   \<and> add_edge two_node_graph 2 1 = Inl OutOfBounds
   \<and> add_edge two_node_graph 0 3 = Inl AssertionFailed"
  by (simp add: add_edge_def two_node_graph_def)

section \<open>increment_covg\<close>

lemma unat_succ16: "(c::16 word) < 65535 \<Longrightarrow> unat (c + 1) = unat c + 1"
proof -
  assume "c < 65535"
  then have "unat c < 65535" by (simp add: word_less_nat_alt)
  then have "unat c + unat (1::16 word) < 2 ^ LENGTH(16)" by simp
  then have "unat (c + 1) = unat c + unat (1::16 word)" by (simp only: unat_add_lem)
  then show ?thesis by simp
qed

text \<open>
  Claim C6. For a node with a coverage vector: if the sample has a slot, \<open>increment_covg\<close>
  returns, the counter of the strand it was given is one more than before when that was
  below 65535 and is unchanged when it was 65535, the counter of the other strand and
  those of every other node and sample are unchanged, and so are the sizes of the vectors
  and every other field; if the sample has no slot, the call ends in the fatal error for
  an invalid sample.
\<close>

theorem increment_covg_saturating:
  assumes n: "n_id < length (node_index_to_sample_coverage g)"
  shows "(sample_id < length (node_index_to_sample_coverage g ! n_id) \<longrightarrow>
           (\<exists>g'. increment_covg g n_id str sample_id = Inr g'
              \<and> stored_covg g' n_id str sample_id =
                  (if stored_covg g n_id str sample_id < 65535
                   then stored_covg g n_id str sample_id + 1 else stored_covg g n_id str sample_id)
              \<and> (stored_covg g n_id str sample_id < 65535 \<longrightarrow>
                   unat (stored_covg g' n_id str sample_id) = unat (stored_covg g n_id str sample_id) + 1)
              \<and> (\<forall>n' str' s'. (n', str', s') \<noteq> (n_id, str, sample_id) \<longrightarrow>
                    n' < length (node_index_to_sample_coverage g) \<longrightarrow>
                    s' < length (node_index_to_sample_coverage g ! n') \<longrightarrow>
                    stored_covg g' n' str' s' = stored_covg g n' str' s')
              \<and> map length (node_index_to_sample_coverage g') = map length (node_index_to_sample_coverage g)
              \<and> g' = g\<lparr>node_index_to_sample_coverage := node_index_to_sample_coverage g'\<rparr>))
       \<and> (\<not> sample_id < length (node_index_to_sample_coverage g ! n_id) \<longrightarrow>
            increment_covg g n_id str sample_id = Inl SampleOutOfRange)"
proof (intro conjI impI)
  assume s: "sample_id < length (node_index_to_sample_coverage g ! n_id)"
  define cov where "cov = node_index_to_sample_coverage g"
  define row where "row = cov ! n_id"
  define f where "f = fst (row ! sample_id)"
  define r where "r = snd (row ! sample_id)"
  define cell where "cell = (case str of Forward \<Rightarrow> ((if f < 65535 then f + 1 else f), r)
                                      | Reverse \<Rightarrow> (f, (if r < 65535 then r + 1 else r)))"
  define g' where "g' = g\<lparr>node_index_to_sample_coverage := cov[n_id := row[sample_id := cell]]\<rparr>"
  have n': "n_id < length cov" and s': "sample_id < length row"
    using n s by (simp_all add: cov_def row_def)
  have run: "increment_covg g n_id str sample_id = Inr g'"
    unfolding g'_def cell_def f_def r_def row_def cov_def
    using n s by (simp add: increment_covg_def Let_def)
  have cov': "node_index_to_sample_coverage g' = cov[n_id := row[sample_id := cell]]"
    by (simp add: g'_def)
  have at: "node_index_to_sample_coverage g' ! n_id ! sample_id = cell"
    using n' s' by (simp add: cov')
  have old: "stored_covg g n_id str sample_id = (case str of Forward \<Rightarrow> f | Reverse \<Rightarrow> r)"
    by (cases str) (simp_all add: stored_covg_def f_def r_def row_def cov_def)
  have new: "stored_covg g' n_id str sample_id =
          (if stored_covg g n_id str sample_id < 65535
           then stored_covg g n_id str sample_id + 1 else stored_covg g n_id str sample_id)"
    unfolding old by (cases str) (simp_all add: stored_covg_def at cell_def)
  have plus: "stored_covg g n_id str sample_id < 65535 \<longrightarrow>
          unat (stored_covg g' n_id str sample_id) = unat (stored_covg g n_id str sample_id) + 1"
    using new by (simp add: unat_succ16)
  have others: "\<forall>m str' t. (m, str', t) \<noteq> (n_id, str, sample_id) \<longrightarrow>
          m < length (node_index_to_sample_coverage g) \<longrightarrow>
          t < length (node_index_to_sample_coverage g ! m) \<longrightarrow>
          stored_covg g' m str' t = stored_covg g m str' t"
  proof (intro allI impI)
    fix m str' t
    assume ne: "(m, str', t) \<noteq> (n_id, str, sample_id)"
      and m: "m < length (node_index_to_sample_coverage g)"
      and t: "t < length (node_index_to_sample_coverage g ! m)"
    show "stored_covg g' m str' t = stored_covg g m str' t"
    proof (cases "m = n_id \<and> t = sample_id")
      case False
      then have "node_index_to_sample_coverage g' ! m ! t = node_index_to_sample_coverage g ! m ! t"
        using n' by (auto simp: cov' nth_list_update cov_def row_def)
      then show ?thesis by (cases str') (simp_all add: stored_covg_def)
    next
      case True
      then have "str' \<noteq> str" using ne by simp
      then show ?thesis using True
        by (cases str; cases str') (simp_all add: stored_covg_def at cell_def f_def r_def row_def cov_def)
    qed
  qed
  have shape: "map length (node_index_to_sample_coverage g') = map length (node_index_to_sample_coverage g)"
    using n' by (simp add: cov' map_update list_update_same_conv cov_def[symmetric] row_def)
  have rest: "g' = g\<lparr>node_index_to_sample_coverage := node_index_to_sample_coverage g'\<rparr>"
    by (simp add: g'_def)
  show "\<exists>g'. increment_covg g n_id str sample_id = Inr g'
      \<and> stored_covg g' n_id str sample_id =
          (if stored_covg g n_id str sample_id < 65535
           then stored_covg g n_id str sample_id + 1 else stored_covg g n_id str sample_id)
      \<and> (stored_covg g n_id str sample_id < 65535 \<longrightarrow>
           unat (stored_covg g' n_id str sample_id) = unat (stored_covg g n_id str sample_id) + 1)
      \<and> (\<forall>n' str' s'. (n', str', s') \<noteq> (n_id, str, sample_id) \<longrightarrow>
            n' < length (node_index_to_sample_coverage g) \<longrightarrow>
            s' < length (node_index_to_sample_coverage g ! n') \<longrightarrow>
            stored_covg g' n' str' s' = stored_covg g n' str' s')
      \<and> map length (node_index_to_sample_coverage g') = map length (node_index_to_sample_coverage g)
      \<and> g' = g\<lparr>node_index_to_sample_coverage := node_index_to_sample_coverage g'\<rparr>"
    using run new plus others shape rest by blast
next
  assume "\<not> sample_id < length (node_index_to_sample_coverage g ! n_id)"
  then show "increment_covg g n_id str sample_id = Inl SampleOutOfRange"
    using n by (simp add: increment_covg_def)
qed

theorem increment_covg_saturating_witness:
  "(\<exists>g'. increment_covg covg_example 0 Forward 0 = Inr g' \<and> stored_covg g' 0 Forward 0 = 2
          \<and> stored_covg g' 0 Reverse 0 = 0 \<and> stored_covg g' 1 Forward 0 = 0)
   \<and> (\<exists>g'. increment_covg covg_example 2 Reverse 0 = Inr g' \<and> stored_covg g' 2 Reverse 0 = 65535)
   \<and> increment_covg covg_example 1 Forward 1 = Inl SampleOutOfRange"
proof -
  have n0: "0 < length (node_index_to_sample_coverage covg_example)"
    and n1: "1 < length (node_index_to_sample_coverage covg_example)"
    and n2: "2 < length (node_index_to_sample_coverage covg_example)"
    and s0: "0 < length (node_index_to_sample_coverage covg_example ! 0)"
    and s1: "0 < length (node_index_to_sample_coverage covg_example ! 1)"
    and s1': "\<not> 1 < length (node_index_to_sample_coverage covg_example ! 1)"
    and s2: "0 < length (node_index_to_sample_coverage covg_example ! 2)"
    by (simp_all add: covg_example_def)
  have v: "stored_covg covg_example 0 Forward 0 = 1" "stored_covg covg_example 0 Reverse 0 = 0"
    "stored_covg covg_example 1 Forward 0 = 0" "stored_covg covg_example 2 Reverse 0 = 65535"
    by (simp_all add: covg_example_def stored_covg_def)
  from increment_covg_saturating[OF n0, of 0 Forward] s0 obtain g' where
    r: "increment_covg covg_example 0 Forward 0 = Inr g'"
    and t: "stored_covg g' 0 Forward 0 =
         (if stored_covg covg_example 0 Forward 0 < 65535
          then stored_covg covg_example 0 Forward 0 + 1 else stored_covg covg_example 0 Forward 0)"
    and o: "\<forall>n' str' s'. (n', str', s') \<noteq> (0, Forward, 0) \<longrightarrow>
              n' < length (node_index_to_sample_coverage covg_example) \<longrightarrow>
              s' < length (node_index_to_sample_coverage covg_example ! n') \<longrightarrow>
              stored_covg g' n' str' s' = stored_covg covg_example n' str' s'"
    by blast
  have "stored_covg g' 0 Forward 0 = 2" using t v by simp
  moreover have "stored_covg g' 0 Reverse 0 = 0" using o[rule_format, of 0 Reverse 0] n0 s0 v by simp
  moreover have "stored_covg g' 1 Forward 0 = 0" using o[rule_format, of 1 Forward 0] n1 s1 v by simp
  ultimately have a: "\<exists>g'. increment_covg covg_example 0 Forward 0 = Inr g' \<and> stored_covg g' 0 Forward 0 = 2
          \<and> stored_covg g' 0 Reverse 0 = 0 \<and> stored_covg g' 1 Forward 0 = 0"
    using r by blast
  from increment_covg_saturating[OF n2, of 0 Reverse] s2 obtain g'' where
    "increment_covg covg_example 2 Reverse 0 = Inr g''"
    and "stored_covg g'' 2 Reverse 0 =
         (if stored_covg covg_example 2 Reverse 0 < 65535
          then stored_covg covg_example 2 Reverse 0 + 1 else stored_covg covg_example 2 Reverse 0)"
    by blast
  then have b: "\<exists>g'. increment_covg covg_example 2 Reverse 0 = Inr g' \<and> stored_covg g' 2 Reverse 0 = 65535"
    using v by simp
  have c: "increment_covg covg_example 1 Forward 1 = Inl SampleOutOfRange"
    using increment_covg_saturating[OF n1, of 1 Forward] s1' by blast
  show ?thesis using a b c by blast
qed

section \<open>coverage_is_zeroes\<close>

lemma sum_covg_zero:
  "sum_covg g n s = Inr 0 \<longleftrightarrow> get_forward_covg g n s = Inr 0 \<and> get_reverse_covg g n s = Inr 0"
  by (auto simp: sum_covg_def split: sum.splits)

lemma sum_covg_returns:
  "n < length (node_index_to_sample_coverage g) \<Longrightarrow> \<exists>c. sum_covg g n s = Inr c"
  by (auto simp: sum_covg_def get_forward_covg_def get_reverse_covg_def get_covg_def Let_def)

lemma coverage_is_zeroes_loop_char:
  "\<forall>n\<in>set ns. node_id n < length (node_index_to_sample_coverage g) \<Longrightarrow>
   coverage_is_zeroes_loop g s ns = Inr (\<forall>n\<in>set ns. sum_covg g (node_id n) s = Inr 0)"
proof (induction ns)
  case Nil
  then show ?case by simp
next
  case (Cons n ns)
  from Cons.prems obtain c where c: "sum_covg g (node_id n) s = Inr c"
    using sum_covg_returns by fastforce
  show ?case using Cons c by (cases "c = 0") auto
qed

text \<open>
  Claim C7, as amended. \<open>coverage_is_zeroes\<close> looks at every node of the graph, the
  sentinel source and sink included: when every node id has a coverage vector, the result
  is true exactly when every node has forward coverage 0 and reverse coverage 0 for the
  sample.
\<close>

theorem coverage_is_zeroes_every_node:
  assumes "\<forall>n\<in>set (nodes (kmer_prg g)). node_id n < length (node_index_to_sample_coverage g)"
  shows "coverage_is_zeroes g sample_id =
           Inr (\<forall>n\<in>set (nodes (kmer_prg g)).
                  get_forward_covg g (node_id n) sample_id = Inr 0
                \<and> get_reverse_covg g (node_id n) sample_id = Inr 0)"
  using coverage_is_zeroes_loop_char[OF assms, of sample_id]
  by (simp add: coverage_is_zeroes_def sum_covg_zero)

theorem coverage_is_zeroes_every_node_witness:
  "coverage_is_zeroes covg_example 0 = Inr False \<and> coverage_is_zeroes zero_covg_example 0 = Inr True"
proof -
  have a: "\<forall>n\<in>set (nodes (kmer_prg covg_example)). node_id n < length (node_index_to_sample_coverage covg_example)"
    by (simp add: covg_example_def)
  have b: "\<forall>n\<in>set (nodes (kmer_prg zero_covg_example)). node_id n < length (node_index_to_sample_coverage zero_covg_example)"
    by (simp add: covg_example_def zero_covg_example_def)
  have "coverage_is_zeroes covg_example 0 = Inr False"
    using coverage_is_zeroes_every_node[OF a, of 0]
    by (simp add: covg_example_def get_forward_covg_def get_covg_def)
  moreover have "coverage_is_zeroes zero_covg_example 0 = Inr True"
    using coverage_is_zeroes_every_node[OF b, of 0]
    by (simp add: covg_example_def zero_covg_example_def get_forward_covg_def get_reverse_covg_def get_covg_def)
  ultimately show ?thesis by simp
qed

text \<open>
  Claim C7 as stated fails where only a sentinel has coverage: in \<open>covg_example\<close> the one
  node between source and sink, node 1, has coverage 0 and 0, and the result is false
  because the source has been seen once.
\<close>

theorem coverage_is_zeroes_sentinel_counterexample:
  "coverage_is_zeroes covg_example 0 = Inr False
   \<and> map node_id (butlast (tl (nodes (kmer_prg covg_example)))) = [1]
   \<and> get_forward_covg covg_example 1 0 = Inr 0
   \<and> get_reverse_covg covg_example 1 0 = Inr 0"
  by (simp add: coverage_is_zeroes_def covg_example_def sum_covg_def get_forward_covg_def
      get_reverse_covg_def get_covg_def)

section \<open>bin_prob\<close>




section \<open>prob_path\<close>

text \<open>
  For a path of fewer than \<open>2^32\<close> nodes that is not a single node with an empty PRG
  path, the divisor is the length of the path, less one for a first node with an empty
  PRG path, less one for a last node with an empty PRG path, and at least 1.
\<close>

lemma unat_effective_len:
  assumes ne: "kpath \<noteq> []" and small: "length kpath < 2 ^ 32"
    and nd: "\<not> (length kpath = 1 \<and> path_length (path (nodes kg ! hd kpath)) = 0)"
  shows "unat (effective_len kg kpath) =
           max 1 (length kpath
                  - (if path_length (path (nodes kg ! hd kpath)) = 0 then 1 else 0)
                  - (if path_length (path (nodes kg ! last kpath)) = 0 then 1 else 0))"
proof -
  define n where "n = length kpath"
  have n1: "1 \<le> n" using ne by (cases kpath) (simp_all add: n_def)
  have nlt: "n < 2 ^ 32" using small by (simp add: n_def)
  have u0: "unat (word_of_nat n :: 32 word) = n" using nlt by (simp add: unat_of_nat)
  have "(1 :: 32 word) \<le> word_of_nat n" using n1 u0 by (simp add: word_le_nat_alt)
  then have "unat (word_of_nat n - 1 :: 32 word) = unat (word_of_nat n :: 32 word) - unat (1 :: 32 word)"
    by (rule unat_sub)
  then have u1: "unat (word_of_nat n - 1 :: 32 word) = n - 1" using u0 by simp
  have u2: "2 \<le> n \<Longrightarrow> unat (word_of_nat n - 1 - 1 :: 32 word) = n - 2"
  proof -
    assume "2 \<le> n"
    then have "(1 :: 32 word) \<le> word_of_nat n - 1" using u1 by (simp add: word_le_nat_alt)
    then have "unat (word_of_nat n - 1 - 1 :: 32 word) = unat (word_of_nat n - 1 :: 32 word) - unat (1 :: 32 word)"
      by (rule unat_sub)
    then show ?thesis using u1 by simp
  qed
  have z: "(w :: 32 word) = 0 \<longleftrightarrow> unat w = 0" for w by (simp add: unat_0_iff)
  have single: "n = 1 \<Longrightarrow> last kpath = hd kpath" using ne by (cases kpath) (simp_all add: n_def)
  show ?thesis
    using n1 u0 u1 u2 nd single
    unfolding effective_len_def Let_def n_def[symmetric]
    by (auto simp: z max_def)
qed

lemma prob_path_mean:
  assumes "kpath \<noteq> []" and "length kpath < 2 ^ 32"
    and "\<not> (length kpath = 1 \<and> path_length (path (nodes (kmer_prg g) ! hd kpath)) = 0)"
    and "prob_path_sum ext g sample_id prob_model (Fin 0) kpath = Inr tot"
  shows "prob_path ext g kpath sample_id prob_model =
           Inr (fl_div tot (fl_of_nat (max 1 (length kpath
                  - (if path_length (path (nodes (kmer_prg g) ! hd kpath)) = 0 then 1 else 0)
                  - (if path_length (path (nodes (kmer_prg g) ! last kpath)) = 0 then 1 else 0)))))"
  using assms(1,4) unat_effective_len[OF assms(1,2,3)]
  by (simp add: prob_path_def)

text \<open>
  Claim C5, at the input where the code leaves it. The path is the single node 0 of
  \<open>covg_example\<close>, the source, whose PRG path is empty. The length 1 is reduced once for
  the first node and once more for the last, which is the same node; the \<open>uint32_t\<close> wraps
  to 4294967295, the test for 0 does not apply, and the sum \<open>ln (1/2)\<close> is divided by
  4294967295 and not by 1.
\<close>

theorem prob_path_single_sentinel:
  "effective_len (kmer_prg covg_example) [0] = 4294967295
   \<and> prob_path example_externals covg_example [0] 0 ''lin'' = Inr (Fin (ln (1 / 2) / 4294967295))
   \<and> prob_path_sum example_externals covg_example 0 ''lin'' (Fin 0) [0] = Inr (Fin (ln (1 / 2)))
   \<and> Fin (ln (1 / 2) / 4294967295) \<noteq> fl_div (Fin (ln (1 / 2))) (fl_of_nat 1)"
proof -
  have len: "effective_len (kmer_prg covg_example) [0] = 4294967295"
    by (simp add: effective_len_def covg_example_def path_length_def)
  have u: "unat (4294967295 :: 32 word) = 4294967295" by simp
  have sm: "prob_path_sum example_externals covg_example 0 ''lin'' (Fin 0) [0] = Inr (Fin (ln (1 / 2)))"
    by (simp add: covg_example_def get_prob_def lin_prob_def sum_covg_def get_forward_covg_def
        get_reverse_covg_def get_covg_def fl_of_nat_def)
  have "ln (1 / 2 :: real) \<noteq> 0" by (simp add: ln_div)
  then have ne: "Fin (ln (1 / 2) / 4294967295) \<noteq> fl_div (Fin (ln (1 / 2))) (fl_of_nat 1)"
    by (simp add: fl_of_nat_def)
  show ?thesis
    using ne by (simp add: prob_path_def sm len u fl_of_nat_def del: prob_path_sum.simps)
qed

section \<open>find_max_path\<close>

lemma chain_check: "kmer_prg_check example_externals (kmer_prg chain_covg) = Inr ()"
  by (simp add: example_externals_def chain_covg_def chain_graph_def check_def)

lemma chain_not_zero: "coverage_is_zeroes chain_covg 0 = Inr False"
  by (simp add: coverage_is_zeroes_def chain_covg_def chain_graph_def sum_covg_def
      get_forward_covg_def get_reverse_covg_def get_covg_def)

lemma chain_zero: "coverage_is_zeroes chain_zero_covg 0 = Inr True"
  by (simp add: coverage_is_zeroes_def chain_zero_covg_def chain_covg_def chain_graph_def sum_covg_def
      get_forward_covg_def get_reverse_covg_def get_covg_def)

lemma chain_lin_probs:
  "get_prob example_externals chain_covg ''lin'' (Suc 0) 0 = Inr NInf"
  "get_prob example_externals chain_covg ''lin'' 2 0 = Inr (Fin 0)"
  by (simp_all add: get_prob_def lin_prob_def chain_covg_def sum_covg_def
      get_forward_covg_def get_reverse_covg_def get_covg_def fl_of_nat_def)

lemma chain_dp:
  "max_path_dp (\<lambda>i. get_prob example_externals chain_covg ''lin'' i 0) (kmer_prg chain_covg)
      (thresh chain_covg) 100 =
   Inr \<lparr>max_sum_of_log_probs_from_node = [Fin 0, NInf, Fin 0, Fin 0],
        length_of_maxpath_from_node = [0, 2, 1, 0],
        prev_node_along_maxpath = [3, 2, 3, 3],
        max_mean = lowest_float, max_length = 0\<rparr>"
proof -
  have k: "kmer_prg chain_covg = chain_graph" and t: "thresh chain_covg = Fin (- 25)"
    by (simp_all add: chain_covg_def)
  show ?thesis
    unfolding k t
    by (simp add: max_path_dp_def chain_graph_def consider_outnode_def chain_lin_probs
      lowest_float_def tolerance_def fl_gt_def fl_sub_def fl_of_nat_def Let_def)
qed

lemma chain_no_path: "find_max_path example_externals chain_covg [] ''lin'' 100 0 = Inl NoPath"
proof -
  have k: "nodes (kmer_prg chain_covg) = nodes chain_graph"
     "sorted_nodes (kmer_prg chain_covg) = [0, 1, 2, 3]" "node_id (nodes chain_graph ! 0) = 0"
    by (simp_all add: chain_covg_def chain_graph_def)
  show ?thesis
    by (simp add: find_max_path_def chain_check chain_not_zero chain_dp k Let_def extract_maxpath.simps)
qed

text \<open>
  Claim C2, as amended. \<open>find_max_path\<close> first runs the check of the graph, and a failure
  of the check ends the call. When the check passes and \<open>coverage_is_zeroes\<close> holds, the
  call returns \<open>lowest_float\<close> and leaves \<open>maxpath\<close> as it was passed, without running the
  dynamic program. When the coverage is not all zero and the dynamic program ends with
  \<open>length_of_maxpath_from_node[0] == 0\<close>, the call does not return a score: it ends in the
  fatal error for "no path through kmer prg", or before it in the one for a path of more
  than 1000000 nodes or in a read out of range.
\<close>

theorem find_max_path_zero_coverage_and_no_path:
  "(kmer_prg_check ext (kmer_prg g) = Inl e \<longrightarrow>
      find_max_path ext g maxpath prob_model m sample_id = Inl e)
   \<and> (kmer_prg_check ext (kmer_prg g) = Inr () \<longrightarrow> coverage_is_zeroes g sample_id = Inr True \<longrightarrow>
      find_max_path ext g maxpath prob_model m sample_id = Inr (lowest_float, maxpath))
   \<and> (kmer_prg_check ext (kmer_prg g) = Inr () \<longrightarrow> coverage_is_zeroes g sample_id = Inr False \<longrightarrow>
      max_path_dp (\<lambda>i. get_prob ext g prob_model i sample_id) (kmer_prg g) (thresh g) m = Inr st \<longrightarrow>
      length_of_maxpath_from_node st ! 0 = 0 \<longrightarrow>
      find_max_path ext g maxpath prob_model m sample_id \<in> {Inl NoPath, Inl InfiniteLoop, Inl OutOfBounds})"
proof (intro conjI impI)
  show "find_max_path ext g maxpath prob_model m sample_id = Inl e"
    if "kmer_prg_check ext (kmer_prg g) = Inl e"
    using that by (simp add: find_max_path_def)
  show "find_max_path ext g maxpath prob_model m sample_id = Inr (lowest_float, maxpath)"
    if "kmer_prg_check ext (kmer_prg g) = Inr ()" "coverage_is_zeroes g sample_id = Inr True"
    using that by (simp add: find_max_path_def)
next
  assume c: "kmer_prg_check ext (kmer_prg g) = Inr ()" and z: "coverage_is_zeroes g sample_id = Inr False"
    and dp: "max_path_dp (\<lambda>i. get_prob ext g prob_model i sample_id) (kmer_prg g) (thresh g) m = Inr st"
    and l0: "length_of_maxpath_from_node st ! 0 = 0"
  have ex: "extract_maxpath ns pv n p mp = Inl x \<Longrightarrow> x = InfiniteLoop \<or> x = OutOfBounds" for ns pv n p mp x
    by (induction ns pv n p mp rule: extract_maxpath.induct)
       (subst (asm) extract_maxpath.simps, auto split: if_splits)
  show "find_max_path ext g maxpath prob_model m sample_id \<in> {Inl NoPath, Inl InfiniteLoop, Inl OutOfBounds}"
    using c z dp l0 ex
    by (auto simp: find_max_path_def Let_def split: sum.splits)
qed

theorem find_max_path_zero_coverage_and_no_path_witness:
  "find_max_path example_externals chain_zero_covg [] ''lin'' 100 0 = Inr (lowest_float, [])
   \<and> find_max_path example_externals chain_covg [] ''lin'' 100 0 = Inl NoPath"
proof -
  have c: "kmer_prg_check example_externals (kmer_prg chain_zero_covg) = Inr ()"
    using chain_check by (simp add: chain_zero_covg_def)
  have a: "find_max_path example_externals chain_zero_covg [] ''lin'' 100 0 = Inr (lowest_float, [])"
    using find_max_path_zero_coverage_and_no_path[of example_externals chain_zero_covg _ "[]" "''lin''" 100 0]
      c chain_zero by blast
  have "find_max_path example_externals chain_covg [] ''lin'' 100 0
          \<in> {Inl NoPath, Inl InfiniteLoop, Inl OutOfBounds}"
    using find_max_path_zero_coverage_and_no_path[of example_externals chain_covg _ "[]" "''lin''" 100 0]
      chain_check chain_not_zero chain_dp by simp
  then have "find_max_path example_externals chain_covg [] ''lin'' 100 0 = Inl NoPath"
    using chain_no_path by simp
  then show ?thesis using a by simp
qed

text \<open>
  Claim C2 as stated fails in the case of no path. On the chain source, 1, 2, sink with
  three reads, node 1 never seen and node 2 seen three times, under the model \<open>lin\<close>, the
  coverage is not all zero, the dynamic program leaves length 0 at the source (the
  log-probability of node 1 is minus infinity, so node 1 never wins), and the call ends in
  the fatal error instead of returning \<open>lowest_float\<close> and an empty path.
\<close>

theorem find_max_path_no_path_counterexample:
  "coverage_is_zeroes chain_covg 0 = Inr False
   \<and> map_sum id length_of_maxpath_from_node
        (max_path_dp (\<lambda>i. get_prob example_externals chain_covg ''lin'' i 0) (kmer_prg chain_covg)
           (thresh chain_covg) 100) = Inr [0, 2, 1, 0]
   \<and> find_max_path example_externals chain_covg [] ''lin'' 100 0 = Inl NoPath
   \<and> find_max_path example_externals chain_covg [] ''lin'' 100 0 \<noteq> Inr (lowest_float, [])"
  by (simp add: chain_not_zero chain_dp chain_no_path)

text \<open>
  What holds of the window in general. The walk that finds the node to drop ends
  \<open>max_num_kmers_to_average + 1\<close> steps from the current node. If no length exceeds
  \<open>max_num_kmers_to_average\<close> before a successor is considered, none does afterwards,
  and the assertion that follows the drop never fails.
\<close>

lemma walk_back_funpow: "walk_back pv n p = Inr q \<Longrightarrow> q = ((\<lambda>x. pv ! x) ^^ n) p"
  by (induction n arbitrary: p) (auto split: if_splits simp: funpow_swap1)

lemma walk_back_from_successor:
  "walk_back pv (unat m) (pv ! u_id) = Inr q \<Longrightarrow> q = ((\<lambda>x. pv ! x) ^^ (unat m + 1)) u_id"
  using walk_back_funpow[of pv "unat m" "pv ! u_id" q] by (simp add: funpow_swap1)

lemma window_full: "(lv :: 32 word) \<le> m \<Longrightarrow> m < 1 + lv \<Longrightarrow> lv = m"
  by uint_arith

lemma window_grow: "(lv :: 32 word) \<le> m \<Longrightarrow> \<not> m < 1 + lv \<Longrightarrow> 1 + lv \<le> m"
  by uint_arith

lemma walk_back_error: "walk_back pv n p = Inl e \<Longrightarrow> e = OutOfBounds"
  by (induction n arbitrary: p) (auto split: if_splits)

lemma drop_from_window_result:
  assumes "drop_from_window prob kg m u_id st = Inr st'"
  shows "length_of_maxpath_from_node st' =
           (length_of_maxpath_from_node st)[u_id := length_of_maxpath_from_node st ! u_id - 1]
         \<and> length (max_sum_of_log_probs_from_node st') = length (max_sum_of_log_probs_from_node st)
         \<and> length_of_maxpath_from_node st' ! u_id = m"
  using assms
  by (auto simp: drop_from_window_def Let_def split: sum.splits if_splits)

lemma consider_outnode_lengths:
  assumes inv: "\<forall>i<length (length_of_maxpath_from_node st). length_of_maxpath_from_node st ! i \<le> m"
    and same: "length (length_of_maxpath_from_node st) = length (max_sum_of_log_probs_from_node st)"
    and run: "consider_outnode prob kg th m u_id v_id st = Inr st'"
  shows "length (length_of_maxpath_from_node st') = length (max_sum_of_log_probs_from_node st')
         \<and> length (length_of_maxpath_from_node st') = length (length_of_maxpath_from_node st)
         \<and> (\<forall>i<length (length_of_maxpath_from_node st'). length_of_maxpath_from_node st' ! i \<le> m)"
proof -
  let ?L = "length_of_maxpath_from_node st" and ?S = "max_sum_of_log_probs_from_node st"
  show ?thesis
  proof (cases "st' = st")
    case True
    then show ?thesis using inv same by simp
  next
    case False
    with run obtain p where v: "v_id < length ?S" and u: "u_id < length ?S" and p: "prob u_id = Inr p"
      by (auto simp: consider_outnode_def Let_def split: if_splits sum.splits)
    define st1 where "st1 = st\<lparr>max_sum_of_log_probs_from_node := ?S[u_id := fl_add p (?S ! v_id)],
                             length_of_maxpath_from_node := ?L[u_id := 1 + ?L ! v_id],
                             prev_node_along_maxpath := (prev_node_along_maxpath st)[u_id := v_id]\<rparr>"
    have lv: "?L ! v_id \<le> m" using inv v same by simp
    have L1: "length_of_maxpath_from_node st1 = ?L[u_id := 1 + ?L ! v_id]"
      and S1: "length (max_sum_of_log_probs_from_node st1) = length ?S"
      by (simp_all add: st1_def)
    have L1u: "length_of_maxpath_from_node st1 ! u_id = 1 + ?L ! v_id" using u same by (simp add: L1)
    from run False p v u obtain st2 where
      st2: "(if m < length_of_maxpath_from_node st1 ! u_id then drop_from_window prob kg m u_id st1
             else Inr st1) = Inr st2"
      and fin: "length_of_maxpath_from_node st' = length_of_maxpath_from_node st2"
               "max_sum_of_log_probs_from_node st' = max_sum_of_log_probs_from_node st2"
      unfolding st1_def
      by (auto simp: consider_outnode_def Let_def split: if_splits sum.splits)
    have L2: "length_of_maxpath_from_node st2 = ?L[u_id := (if m < 1 + ?L ! v_id then m else 1 + ?L ! v_id)]"
      and S2: "length (max_sum_of_log_probs_from_node st2) = length ?S"
    proof -
      show "length_of_maxpath_from_node st2 = ?L[u_id := (if m < 1 + ?L ! v_id then m else 1 + ?L ! v_id)]"
      proof (cases "m < 1 + ?L ! v_id")
        case True
        then have d: "drop_from_window prob kg m u_id st1 = Inr st2" using st2 L1u by simp
        have "?L ! v_id = m" using lv True by (rule window_full)
        then show ?thesis using drop_from_window_result[OF d] True L1 u same by simp
      next
        case False
        then show ?thesis using st2 L1u L1 by simp
      qed
      show "length (max_sum_of_log_probs_from_node st2) = length ?S"
        using st2 S1 drop_from_window_result by (auto split: if_splits)
    qed
    have bound: "(if m < 1 + ?L ! v_id then m else 1 + ?L ! v_id) \<le> m"
      using lv window_grow by auto
    have "\<forall>i<length ?L. (?L[u_id := (if m < 1 + ?L ! v_id then m else 1 + ?L ! v_id)]) ! i \<le> m"
    proof (intro allI impI)
      fix i assume i: "i < length ?L"
      show "(?L[u_id := (if m < 1 + ?L ! v_id then m else 1 + ?L ! v_id)]) ! i \<le> m"
      proof (cases "i = u_id")
        case True
        then show ?thesis using i bound by (simp only: nth_list_update_eq)
      next
        case False
        then show ?thesis using i inv by simp
      qed
    qed
    then show ?thesis using fin L2 S2 same by simp
  qed
qed

lemma consider_outnode_assertion_holds:
  assumes inv: "\<forall>i<length (length_of_maxpath_from_node st). length_of_maxpath_from_node st ! i \<le> m"
    and same: "length (length_of_maxpath_from_node st) = length (max_sum_of_log_probs_from_node st)"
    and prob: "\<forall>i. prob i \<noteq> Inl AssertionFailed"
  shows "consider_outnode prob kg th m u_id v_id st \<noteq> Inl AssertionFailed"
proof
  assume a: "consider_outnode prob kg th m u_id v_id st = Inl AssertionFailed"
  let ?L = "length_of_maxpath_from_node st" and ?S = "max_sum_of_log_probs_from_node st"
  from a prob obtain p where v: "v_id < length ?S" and u: "u_id < length ?S" and p: "prob u_id = Inr p"
    by (auto simp: consider_outnode_def Let_def split: if_splits sum.splits)
  have lv: "?L ! v_id \<le> m" using inv v same by simp
  define st1 where "st1 = st\<lparr>max_sum_of_log_probs_from_node := ?S[u_id := fl_add p (?S ! v_id)],
                             length_of_maxpath_from_node := ?L[u_id := 1 + ?L ! v_id],
                             prev_node_along_maxpath := (prev_node_along_maxpath st)[u_id := v_id]\<rparr>"
  have L1u: "length_of_maxpath_from_node st1 ! u_id = 1 + ?L ! v_id" using u same by (simp add: st1_def)
  from a prob p v u have big: "m < 1 + ?L ! v_id"
    and d: "drop_from_window prob kg m u_id st1 = Inl AssertionFailed"
    unfolding st1_def
    by (auto simp: consider_outnode_def Let_def same split: if_splits sum.splits)
  have "?L ! v_id = m" using lv big by (rule window_full)
  then have "(length_of_maxpath_from_node st1)[u_id := length_of_maxpath_from_node st1 ! u_id - 1] ! u_id = m"
    using u same by (simp add: st1_def)
  with d prob show False
    by (auto simp: drop_from_window_def Let_def split: sum.splits if_splits dest: walk_back_error)
qed

text \<open>
  Claim C1, at the input where the code leaves it. On the chain source, 1, 2, sink with
  log-probabilities 0, -1, -2, 0 and \<open>max_num_kmers_to_average = 1\<close>: when node 1 takes
  node 2 as its successor its length becomes 2, and the node whose log-probability is
  subtracted is found by starting at the successor, node 2, and moving once more: node 3,
  two steps from node 1. The node one step from node 1 is node 2. So the sum of node 1
  ends as \<open>-1 + -2 - 0 = -3\<close> with length 1, where subtracting node 2 would give \<open>-1\<close>.
\<close>

theorem find_max_path_window_drop:
  "max_path_dp chain_prob chain_graph (Fin (- 25)) 1 =
     Inr \<lparr>max_sum_of_log_probs_from_node = [Fin (- 1), Fin (- 3), Fin (- 2), Fin 0],
          length_of_maxpath_from_node = [1, 1, 1, 0],
          prev_node_along_maxpath = [1, 2, 3, 3],
          max_mean = Fin (- 3), max_length = 1\<rparr>
   \<and> walk_back [3, 2, 3, 3] (unat (1 :: 32 word)) ([3, 2, 3, 3] ! 1) = Inr 3"
  by (simp add: max_path_dp_def chain_graph_def chain_prob_def consider_outnode_def
      drop_from_window_def lowest_float_def tolerance_def fl_gt_def fl_sub_def fl_of_nat_def
      Let_def eval_nat_numeral)

section \<open>load: the order of the node vector\<close>









lemma node_id_line: "node_id \<circ> node_of_line = sl_id"
  by (auto simp: node_of_line_def)

lemma map_node_id_lines: "map node_id (map node_of_line ls) = map sl_id ls"
  by (simp add: node_id_line)






end
